theory Spec2Isabelle
  imports Complex_Main "HOL-Library.Word"
begin

section \<open>Values\<close>

text \<open>
  A JavaScript string is a sequence of UTF-16 code units. \<open>js\<close> embeds an ASCII literal
  of the source.
\<close>

type_synonym jsstring = "16 word list"

definition js :: "string \<Rightarrow> jsstring" where
  "js s = map of_char s"

text \<open>
  \<open>String.prototype.trim\<close> removes the WhiteSpace and LineTerminator code points of
  ECMAScript from both ends; all of them are single code units.
\<close>

definition isWhiteSpace :: "16 word \<Rightarrow> bool" where
  "isWhiteSpace c =
     (c \<in> set [0x0009, 0x000A, 0x000B, 0x000C, 0x000D, 0x0020, 0x00A0, 0x1680,
               0x2000, 0x2001, 0x2002, 0x2003, 0x2004, 0x2005, 0x2006, 0x2007,
               0x2008, 0x2009, 0x200A, 0x2028, 0x2029, 0x202F, 0x205F, 0x3000,
               0xFEFF])"

definition trim :: "jsstring \<Rightarrow> jsstring" where
  "trim s = rev (dropWhile isWhiteSpace (rev (dropWhile isWhiteSpace s)))"

text \<open>
  The types of \<open>./types\<close>: the status is three flags and an optional error; a
  transcript record has an id, a type, its text and a timestamp (milliseconds), and an
  optional speaker label that is never set.
\<close>

record TranslationState =
  isActive :: bool
  isConnecting :: bool
  isReconnecting :: bool
  error :: "jsstring option"

datatype speaker = User | Model

record Transcription =
  tid :: jsstring
  ttype :: speaker
  ttext :: jsstring
  timestamp :: nat
  speakerLabel :: "jsstring option"

definition SESSION_MAX_DURATION :: nat where
  "SESSION_MAX_DURATION = 270000"

section \<open>The component's state\<close>

text \<open>
  Every \<open>startTranslation\<close> of one render closes over that render's \<open>status\<close>
  constant, and the calls it makes to itself (rotation timer, retry timer, \<open>onclose\<close>)
  run in the same closure. \<open>seenStatus\<close> is that constant; \<open>isRotation\<close> is the
  call's parameter.
\<close>

record closure =
  isRotation :: bool
  seenStatus :: TranslationState

text \<open>
  A connection made by \<open>ai.live.connect\<close>: \<open>Pending\<close> until \<open>onopen\<close> runs,
  \<open>Opened old\<close> once \<open>onopen\<close> has read \<open>oldSession\<close> and registered the
  \<open>then\<close> callback on \<open>sessionPromise\<close>, \<open>Resolved\<close> once that callback ran.
\<close>

datatype phase = Pending | Opened "nat option" | Resolved

record connection = closure +
  phase :: phase

record app =
  status :: TranslationState
  transcriptions :: "Transcription list"
  sessionAge :: int
  audioContextInRef :: bool
  audioContextOutRef :: bool
  scriptProcessorRef :: bool
  nextStartTimeRef :: real
  sourcesRef :: "nat list"
  sessionRef :: "nat option"
  isUserInitiatedStop :: bool
  sessionStartTimeRef :: nat
  rotationTimerRef :: "nat option"
  historyRef :: "Transcription list"
  currentInputTransRef :: jsstring
  currentOutputTransRef :: jsstring
  calls :: "nat \<rightharpoonup> closure"
  conns :: "nat \<rightharpoonup> connection"
  timers :: "nat \<rightharpoonup> TranslationState"
  nextCall :: nat
  nextConn :: nat
  nextTimer :: nat
  nextSource :: nat

text \<open>
  The three audio refs hold an object or \<open>null\<close>; only that is read, so each is a
  flag. \<open>sourcesRef\<close> is the set of scheduled buffer sources, in insertion order.
  \<open>calls\<close> are the \<open>startTranslation\<close> invocations suspended at
  \<open>await getUserMedia\<close>, \<open>conns\<close> the connections whose callbacks are live,
  \<open>timers\<close> the armed timeouts (both kinds run the same callback, so a timer is the
  \<open>status\<close> its callback closes over). A timer id is a positive integer in the
  browser, hence truthy: \<open>rotationTimerRef = None\<close> is \<open>null\<close>.
\<close>

text \<open>
  The \<open>rotationContext\<close> put into the system instruction of a connect request:
  \<open>STARTING NEW MEETING.\<close>, or the rotation notice followed by the recent history.
  The actions are the calls the component makes on its environment; sessions, calls,
  timers and buffer sources are named by numbers, given out in order.
\<close>

datatype framing = NewMeeting | Rotation "Transcription list"

datatype action =
    GetUserMedia nat
  | Connect nat framing
  | Close nat
  | SendRealtimeInput nat jsstring
  | SetTimeout nat nat
  | ClearTimeout nat
  | Disconnect
  | CloseContextIn
  | CloseContextOut
  | SourceStart nat real
  | SourceStop nat
  | UncaughtTypeError

definition initial :: app where
  "initial =
     \<lparr> status = \<lparr> isActive = False, isConnecting = False, isReconnecting = False,
                  error = None \<rparr>,
       transcriptions = [], sessionAge = 0,
       audioContextInRef = False, audioContextOutRef = False, scriptProcessorRef = False,
       nextStartTimeRef = 0, sourcesRef = [],
       sessionRef = None, isUserInitiatedStop = True, sessionStartTimeRef = 0,
       rotationTimerRef = None, historyRef = [],
       currentInputTransRef = [], currentOutputTransRef = [],
       calls = Map.empty, conns = Map.empty, timers = Map.empty,
       nextCall = 0, nextConn = 0, nextTimer = 0, nextSource = 0 \<rparr>"

section \<open>Operations\<close>

text \<open>
  Each function of the component takes the state and returns the new state with the
  actions it emitted, in order. One event of the event loop runs one of them to its end;
  the \<open>await\<close> in \<open>startTranslation\<close> splits it in two.
\<close>

definition cleanupAudio :: "app \<Rightarrow> app \<times> action list" where
  "cleanupAudio s =
     (s \<lparr> scriptProcessorRef := False, audioContextInRef := False,
          audioContextOutRef := False, sourcesRef := [], nextStartTimeRef := 0 \<rparr>,
      (if scriptProcessorRef s then [Disconnect] else []) @
      (if audioContextInRef s then [CloseContextIn] else []) @
      (if audioContextOutRef s then [CloseContextOut] else []) @
      map SourceStop (sourcesRef s))"

definition stopTranslation :: "app \<Rightarrow> app \<times> action list" where
  "stopTranslation s =
     (let s1 = s \<lparr> isUserInitiatedStop := True \<rparr>;
          (s2, a2) = (case rotationTimerRef s1 of
                        None \<Rightarrow> (s1, [])
                      | Some t \<Rightarrow> (s1 \<lparr> timers := (timers s1)(t := None) \<rparr>,
                                   [ClearTimeout t]));
          (s3, a3) = (case sessionRef s2 of
                        None \<Rightarrow> (s2, [])
                      | Some h \<Rightarrow> (s2 \<lparr> sessionRef := None \<rparr>, [Close h]));
          (s4, a4) = cleanupAudio s3
      in (s4 \<lparr> status := \<lparr> isActive = False, isConnecting = False,
                            isReconnecting = False, error = None \<rparr>,
               sessionAge := 0 \<rparr>,
          a2 @ a3 @ a4))"

text \<open>
  \<open>startTranslation\<close> up to \<open>await getUserMedia\<close>. The constructors it calls
  (\<open>GoogleGenAI\<close>, \<open>AudioContext\<close>) are taken not to throw.
\<close>

definition startTranslation :: "bool \<Rightarrow> TranslationState \<Rightarrow> app \<Rightarrow> app \<times> action list" where
  "startTranslation rot seen s =
     (let s1 = (if \<not> rot
                then s \<lparr> isUserInitiatedStop := False,
                         status := (status s) \<lparr> isConnecting := True, error := None \<rparr> \<rparr>
                else s \<lparr> status := (status s) \<lparr> isReconnecting := True \<rparr> \<rparr>);
          (s2, a2) = (if \<not> rot then cleanupAudio s1 else (s1, []));
          s3 = s2 \<lparr> audioContextInRef := True, audioContextOutRef := True \<rparr>;
          c = nextCall s3
      in (s3 \<lparr> calls := (calls s3)(c \<mapsto> \<lparr> isRotation = rot, seenStatus = seen \<rparr>),
               nextCall := Suc c \<rparr>,
          a2 @ [GetUserMedia c]))"

text \<open>
  After the \<open>await\<close>: the context text is built from the last 15 records of
  \<open>historyRef\<close> (kept here as the records, not rendered to text), and the connection
  is requested; \<open>sessionPromise\<close> is not awaited.
\<close>

definition recentHistory :: "Transcription list \<Rightarrow> Transcription list" where
  "recentHistory h = drop (length h - 15) h"

definition connect :: "nat \<Rightarrow> closure \<Rightarrow> app \<Rightarrow> app \<times> action list" where
  "connect c cl s =
     (let rotationContext = (if isRotation cl then Rotation (recentHistory (historyRef s))
                             else NewMeeting);
          h = nextConn s
      in (s \<lparr> calls := (calls s)(c := None),
              conns := (conns s)(h \<mapsto> \<lparr> isRotation = isRotation cl,
                                          seenStatus = seenStatus cl, phase = Pending \<rparr>),
              nextConn := Suc h \<rparr>,
          [Connect h rotationContext]))"

text \<open>
  The \<open>catch\<close> block. \<open>msg\<close> is \<open>err.message\<close>, if the error has one, and
  \<open>failureMessage\<close> is \<open>err.message || 'Connection failed'\<close>.
\<close>

definition failureMessage :: "jsstring option \<Rightarrow> jsstring" where
  "failureMessage msg =
     (case msg of
        None \<Rightarrow> js ''Connection failed''
      | Some m \<Rightarrow> if m = [] then js ''Connection failed'' else m)"

definition catch :: "nat \<Rightarrow> closure \<Rightarrow> jsstring option \<Rightarrow> app \<Rightarrow> app \<times> action list" where
  "catch c cl msg s =
     (let s1 = s \<lparr> calls := (calls s)(c := None) \<rparr>
      in if \<not> isRotation cl
         then (s1 \<lparr> status := \<lparr> isActive = False, isConnecting = False,
                                isReconnecting = False,
                                error = Some (failureMessage msg) \<rparr> \<rparr>,
               [])
         else (let t = nextTimer s1
               in (s1 \<lparr> status := (status s1) \<lparr> isReconnecting := False \<rparr>,
                        timers := (timers s1)(t \<mapsto> seenStatus cl),
                        nextTimer := Suc t \<rparr>,
                   [SetTimeout t 5000])))"

text \<open>
  Both timeout callbacks (rotation after \<open>SESSION_MAX_DURATION\<close>, retry after 5000 ms)
  are \<open>if (!isUserInitiatedStop.current) startTranslation(true)\<close>.
\<close>

definition timeout :: "nat \<Rightarrow> TranslationState \<Rightarrow> app \<Rightarrow> app \<times> action list" where
  "timeout t seen s =
     (let s1 = s \<lparr> timers := (timers s)(t := None) \<rparr>
      in if \<not> isUserInitiatedStop s1 then startTranslation True seen s1 else (s1, []))"

text \<open>
  \<open>onopen\<close> of connection \<open>h\<close>; \<open>now\<close> is \<open>Date.now()\<close>. With no script
  processor and no input context (after a cleanup), \<open>audioContextInRef.current!\<close> is
  \<open>null\<close> and the callback ends in a TypeError, after the status and the timer
  were set.
\<close>

definition onopen :: "nat \<Rightarrow> connection \<Rightarrow> nat \<Rightarrow> app \<Rightarrow> app \<times> action list" where
  "onopen h cn now s =
     (let oldSession = sessionRef s;
          s1 = s \<lparr> conns := (conns s)(h \<mapsto> cn \<lparr> phase := Opened oldSession \<rparr>),
                   status := \<lparr> isActive = True, isConnecting = False,
                               isReconnecting = False, error = None \<rparr>,
                   sessionStartTimeRef := now,
                   sessionAge := 0 \<rparr>;
          (s2, a2) = (case rotationTimerRef s1 of
                        None \<Rightarrow> (s1, [])
                      | Some t \<Rightarrow> (s1 \<lparr> timers := (timers s1)(t := None) \<rparr>,
                                   [ClearTimeout t]));
          t' = nextTimer s2;
          s3 = s2 \<lparr> timers := (timers s2)(t' \<mapsto> seenStatus cn),
                    rotationTimerRef := Some t',
                    nextTimer := Suc t' \<rparr>;
          a3 = [SetTimeout t' SESSION_MAX_DURATION]
      in if \<not> scriptProcessorRef s3
         then (if audioContextInRef s3
               then (s3 \<lparr> scriptProcessorRef := True \<rparr>, a2 @ a3)
               else (s3, a2 @ a3 @ [UncaughtTypeError]))
         else (s3, a2 @ a3))"

text \<open>The \<open>then\<close> callback registered by \<open>onopen\<close>, run when \<open>sessionPromise\<close> resolves.\<close>

definition resolved :: "nat \<Rightarrow> connection \<Rightarrow> nat option \<Rightarrow> app \<Rightarrow> app \<times> action list" where
  "resolved h cn oldSession s =
     (s \<lparr> conns := (conns s)(h \<mapsto> cn \<lparr> phase := Resolved \<rparr>),
          sessionRef := Some h \<rparr>,
      (case oldSession of
         None \<Rightarrow> []
       | Some old \<Rightarrow> if old \<noteq> h then [Close old] else []))"

text \<open>
  \<open>onclose\<close> reads the stop flag and the \<open>isReconnecting\<close> of the status its
  closure captured; \<open>onerror\<close> only clears the reconnecting flag, for a rotation.
\<close>

definition onclose :: "connection \<Rightarrow> app \<Rightarrow> app \<times> action list" where
  "onclose cn s =
     (if \<not> isUserInitiatedStop s \<and> \<not> isReconnecting (seenStatus cn)
      then startTranslation True (seenStatus cn) s
      else (s, []))"

definition onerror :: "connection \<Rightarrow> app \<Rightarrow> app \<times> action list" where
  "onerror cn s =
     (if isRotation cn then (s \<lparr> status := (status s) \<lparr> isReconnecting := False \<rparr> \<rparr>, [])
      else (s, []))"

text \<open>
  \<open>onaudioprocess\<close>: \<open>pcmBlob\<close> is \<open>createBlob(inputData)\<close>, \<open>now1\<close> and
  \<open>now2\<close> the two readings of \<open>Date.now()\<close>.
\<close>

definition onaudioprocess :: "jsstring \<Rightarrow> nat \<Rightarrow> nat \<Rightarrow> app \<Rightarrow> app \<times> action list" where
  "onaudioprocess pcmBlob now1 now2 s =
     ((if now1 mod 1000 < 100
       then s \<lparr> sessionAge := (int now2 - int (sessionStartTimeRef s)) div 1000 \<rparr>
       else s),
      (case sessionRef s of
         None \<Rightarrow> []
       | Some h \<Rightarrow> if \<not> isUserInitiatedStop s then [SendRealtimeInput h pcmBlob] else []))"

text \<open>
  An inbound message: the fields \<open>onmessage\<close> reads. A transcription object may lack
  its \<open>text\<close>, and \<open>+=\<close> then appends the text of \<open>undefined\<close>.
\<close>

record message =
  audioData :: "jsstring option"
  inputTranscription :: "jsstring option option"
  outputTranscription :: "jsstring option option"
  turnComplete :: bool

text \<open>
  What \<open>onmessage\<close> reads from its environment: the output clock
  (\<open>ctx.currentTime\<close>), the duration of the decoded buffer (\<open>None\<close> when
  \<open>decodeAudioData\<close> rejects, which ends the handler), and the ids and dates of the
  two records. The decoding is taken to finish before the next event is dispatched.
\<close>

record reading =
  currentTime :: real
  decoded :: "real option"
  random1 :: jsstring
  date1 :: nat
  random2 :: jsstring
  date2 :: nat

definition appendText :: "jsstring \<Rightarrow> jsstring option option \<Rightarrow> jsstring" where
  "appendText buf t =
     (case t of
        None \<Rightarrow> buf
      | Some None \<Rightarrow> buf @ js ''undefined''
      | Some (Some x) \<Rightarrow> buf @ x)"

definition turnRecords :: "reading \<Rightarrow> jsstring \<Rightarrow> jsstring \<Rightarrow> Transcription list" where
  "turnRecords r uText mText =
     (if uText \<noteq> []
      then [\<lparr> tid = random1 r, ttype = User, ttext = uText, timestamp = date1 r,
               speakerLabel = None \<rparr>]
      else []) @
     (if mText \<noteq> []
      then [\<lparr> tid = random2 r, ttype = Model, ttext = mText, timestamp = date2 r,
               speakerLabel = None \<rparr>]
      else [])"

definition assemble :: "message \<Rightarrow> reading \<Rightarrow> app \<Rightarrow> app" where
  "assemble m r s =
     (let s1 = s \<lparr> currentInputTransRef :=
                     appendText (currentInputTransRef s) (inputTranscription m) \<rparr>;
          s2 = s1 \<lparr> currentOutputTransRef :=
                      appendText (currentOutputTransRef s1) (outputTranscription m) \<rparr>
      in if turnComplete m
         then (let uText = trim (currentInputTransRef s2);
                   mText = trim (currentOutputTransRef s2);
                   s3 = (if uText \<noteq> [] \<or> mText \<noteq> []
                         then s2 \<lparr> transcriptions :=
                                     transcriptions s2 @ turnRecords r uText mText \<rparr>
                         else s2)
               in s3 \<lparr> currentInputTransRef := [], currentOutputTransRef := [] \<rparr>)
         else s2)"

definition onmessage :: "message \<Rightarrow> reading \<Rightarrow> app \<Rightarrow> app \<times> action list" where
  "onmessage m r s =
     (if audioData m \<noteq> None \<and> audioData m \<noteq> Some [] \<and> audioContextOutRef s
      then (let s1 = s \<lparr> nextStartTimeRef := max (nextStartTimeRef s) (currentTime r) \<rparr>
            in case decoded r of
                 None \<Rightarrow> (s1, [])
               | Some duration \<Rightarrow>
                   (let src = nextSource s1;
                        s2 = s1 \<lparr> nextStartTimeRef := nextStartTimeRef s1 + duration,
                                  sourcesRef := sourcesRef s1 @ [src],
                                  nextSource := Suc src \<rparr>
                    in (assemble m r s2, [SourceStart src (nextStartTimeRef s1)])))
      else (assemble m r s, []))"

section \<open>Events\<close>

datatype event =
    UserStart
  | UserStop
  | DismissError
  | MediaGranted nat
  | StartFailed nat "jsstring option"
  | OnOpen nat nat
  | SessionResolved nat
  | OnMessage nat message reading
  | OnClose nat
  | OnError nat
  | TimerFired nat
  | AudioProcess jsstring nat nat
  | SourceEnded nat

text \<open>
  The events of the single event loop: the start and stop buttons and the dismissal of
  the error; the awaited \<open>getUserMedia\<close> resolving, or the \<open>try\<close> block failing
  (with the error's message, if any); the callbacks of a connection; the resolution of
  its session promise; a timeout firing; the capture callback with its blob; the end of
  a buffer source. \<open>onopen\<close> runs once for a connection and its \<open>then\<close> callback
  once after it. An event for a call, connection, timer or processor that does not exist
  changes nothing.
\<close>

fun handle :: "event \<Rightarrow> app \<Rightarrow> app \<times> action list" where
  "handle UserStart s = startTranslation False (status s) s"
| "handle UserStop s = stopTranslation s"
| "handle DismissError s = (s \<lparr> status := (status s) \<lparr> error := None \<rparr> \<rparr>, [])"
| "handle (MediaGranted c) s =
     (case calls s c of None \<Rightarrow> (s, []) | Some cl \<Rightarrow> connect c cl s)"
| "handle (StartFailed c msg) s =
     (case calls s c of None \<Rightarrow> (s, []) | Some cl \<Rightarrow> catch c cl msg s)"
| "handle (OnOpen h now) s =
     (case conns s h of
        None \<Rightarrow> (s, [])
      | Some cn \<Rightarrow> (case phase cn of Pending \<Rightarrow> onopen h cn now s | _ \<Rightarrow> (s, [])))"
| "handle (SessionResolved h) s =
     (case conns s h of
        None \<Rightarrow> (s, [])
      | Some cn \<Rightarrow> (case phase cn of Opened old \<Rightarrow> resolved h cn old s | _ \<Rightarrow> (s, [])))"
| "handle (OnMessage h m r) s =
     (case conns s h of None \<Rightarrow> (s, []) | Some cn \<Rightarrow> onmessage m r s)"
| "handle (OnClose h) s =
     (case conns s h of None \<Rightarrow> (s, []) | Some cn \<Rightarrow> onclose cn s)"
| "handle (OnError h) s =
     (case conns s h of None \<Rightarrow> (s, []) | Some cn \<Rightarrow> onerror cn s)"
| "handle (TimerFired t) s =
     (case timers s t of None \<Rightarrow> (s, []) | Some seen \<Rightarrow> timeout t seen s)"
| "handle (AudioProcess pcmBlob now1 now2) s =
     (if scriptProcessorRef s then onaudioprocess pcmBlob now1 now2 s else (s, []))"
| "handle (SourceEnded src) s = (s \<lparr> sourcesRef := removeAll src (sourcesRef s) \<rparr>, [])"

text \<open>After the handler React renders, and the effect copies the log into \<open>historyRef\<close>.\<close>

definition dispatch :: "event \<Rightarrow> app \<Rightarrow> app \<times> action list" where
  "dispatch e s =
     (let (s', acts) = handle e s in (s' \<lparr> historyRef := transcriptions s' \<rparr>, acts))"

text \<open>
  A run of the event loop from a state, with the actions emitted so far; each event is
  dispatched in the state the one before it left.
\<close>

fun run :: "event list \<Rightarrow> app \<times> action list \<Rightarrow> app \<times> action list" where
  "run [] sa = sa"
| "run (e # es) (s, acts) = run es (case dispatch e s of (s1, a1) \<Rightarrow> (s1, acts @ a1))"

section \<open>The audio codec\<close>

text \<open>
  Modelled from the spec: \<open>utils/audio-utils\<close> (\<open>createBlob\<close>, \<open>encode\<close>,
  \<open>decode\<close>, \<open>decodeAudioData\<close>) is imported by \<open>App.tsx\<close> but is not among the
  sources, so the codec follows section 4.1 of the specification. Samples are real
  numbers. The scale is the full scale of a 16-bit signed integer, \<open>2 ^ 15\<close>, for which
  the scaling and the division are exact on floating-point samples as well.
\<close>

text \<open>Modelled from the spec: "clamps each sample to range", the range being \<open>[-1, 1]\<close>.\<close>

definition clampSample :: "real \<Rightarrow> real" where
  "clampSample x = max (- 1) (min 1 x)"

text \<open>
  Modelled from the spec: "scales to a 16-bit signed integer": the clamped sample times
  \<open>2 ^ 15\<close>, truncated towards zero as a store into a 16-bit integer array does, and
  kept within the 16-bit range (the sample 1 becomes 32767).
\<close>

definition trunc :: "real \<Rightarrow> int" where
  "trunc y = (if y < 0 then \<lceil>y\<rceil> else \<lfloor>y\<rfloor>)"

definition toInt16 :: "real \<Rightarrow> 16 word" where
  "toInt16 x = word_of_int (max (- 32768) (min 32767 (trunc (clampSample x * 32768))))"

text \<open>Modelled from the spec: "packs little-endian": low byte first.\<close>

definition le16 :: "16 word \<Rightarrow> 8 word list" where
  "le16 v = [ucast v, ucast (drop_bit 8 v)]"

text \<open>
  Modelled from the spec: "base64-frames the bytes": standard base64 with padding.
\<close>

definition alphabet :: string where
  "alphabet = ''ABCDEFGHIJKLMNOPQRSTUVWXYZabcdefghijklmnopqrstuvwxyz0123456789+/''"

definition sextetChar :: "nat \<Rightarrow> char" where
  "sextetChar n = alphabet ! n"

fun base64 :: "8 word list \<Rightarrow> string" where
  "base64 [] = []"
| "base64 [a] =
     [sextetChar (unat a div 4), sextetChar (unat a mod 4 * 16), CHR ''='', CHR ''='']"
| "base64 [a, b] =
     [sextetChar (unat a div 4), sextetChar (unat a mod 4 * 16 + unat b div 16),
      sextetChar (unat b mod 16 * 4), CHR ''='']"
| "base64 (a # b # c # bs) =
     [sextetChar (unat a div 4), sextetChar (unat a mod 4 * 16 + unat b div 16),
      sextetChar (unat b mod 16 * 4 + unat c div 64), sextetChar (unat c mod 64)] @ base64 bs"

text \<open>
  Modelled from the spec: "tags with sample rate and channel count": the capture rate of
  section 4.2 and one channel.
\<close>

record transportFrame =
  payload :: string
  sampleRate :: nat
  channelCount :: nat

definition encodeForTransport :: "real list \<Rightarrow> transportFrame" where
  "encodeForTransport samples =
     \<lparr> payload = base64 (concat (map (le16 \<circ> toInt16) samples)),
       sampleRate = 16000, channelCount = 1 \<rparr>"

text \<open>
  Modelled from the spec: \<open>decodeFromTransport\<close> is the "inverse operation producing a
  normalized float buffer", and "fails with \<open>MalformedFrame\<close> if byte length is not a
  multiple of the sample width"; text that is not base64 fails the same way.
\<close>

datatype codecError = MalformedFrame

fun indexOf :: "'a \<Rightarrow> 'a list \<Rightarrow> nat option" where
  "indexOf x [] = None"
| "indexOf x (y # ys) = (if x = y then Some 0 else map_option Suc (indexOf x ys))"

definition charSextet :: "char \<Rightarrow> nat option" where
  "charSextet c = indexOf c alphabet"

definition quad :: "char \<Rightarrow> char \<Rightarrow> char \<Rightarrow> char \<Rightarrow> 8 word list option" where
  "quad c0 c1 c2 c3 =
     (case (charSextet c0, charSextet c1) of
        (Some s0, Some s1) \<Rightarrow>
          (if c2 = CHR ''='' \<and> c3 = CHR ''='' then Some [of_nat (s0 * 4 + s1 div 16)]
           else (case charSextet c2 of
                   None \<Rightarrow> None
                 | Some s2 \<Rightarrow>
                     (if c3 = CHR ''=''
                      then Some [of_nat (s0 * 4 + s1 div 16), of_nat (s1 mod 16 * 16 + s2 div 4)]
                      else (case charSextet c3 of
                              None \<Rightarrow> None
                            | Some s3 \<Rightarrow>
                                Some [of_nat (s0 * 4 + s1 div 16),
                                      of_nat (s1 mod 16 * 16 + s2 div 4),
                                      of_nat (s2 mod 4 * 64 + s3)]))))
      | _ \<Rightarrow> None)"

fun unbase64 :: "string \<Rightarrow> 8 word list option" where
  "unbase64 [] = Some []"
| "unbase64 (c0 # c1 # c2 # c3 # cs) =
     (case quad c0 c1 c2 c3 of
        None \<Rightarrow> None
      | Some bs \<Rightarrow>
          (if cs = [] then Some bs
           else if length bs = 3 then map_option ((@) bs) (unbase64 cs)
           else None))"
| "unbase64 cs = None"

fun unle16 :: "8 word list \<Rightarrow> 16 word list option" where
  "unle16 [] = Some []"
| "unle16 (lo # hi # bs) = map_option ((#) (word_cat hi lo)) (unle16 bs)"
| "unle16 [b] = None"

definition fromInt16 :: "16 word \<Rightarrow> real" where
  "fromInt16 v = real_of_int (sint v) / 32768"

definition decodeFromTransport :: "transportFrame \<Rightarrow> nat \<Rightarrow> nat \<Rightarrow> codecError + real list" where
  "decodeFromTransport frame targetSampleRate channels =
     (case unbase64 (payload frame) of
        None \<Rightarrow> Inl MalformedFrame
      | Some bytes \<Rightarrow>
          (case unle16 bytes of
             None \<Rightarrow> Inl MalformedFrame
           | Some vs \<Rightarrow> Inr (map fromInt16 vs)))"

section \<open>Observations\<close>

text \<open>The messages of one connection, as the events that deliver them.\<close>

definition inbound :: "nat \<Rightarrow> (message \<times> reading) list \<Rightarrow> event list" where
  "inbound h ps = map (\<lambda>(m, r). OnMessage h m r) ps"

text \<open>
  A message is handled to the end unless it carries audio that \<open>decodeAudioData\<close>
  rejects.
\<close>

definition decodes :: "message \<Rightarrow> reading \<Rightarrow> bool" where
  "decodes m r = (audioData m = None \<or> decoded r \<noteq> None)"

text \<open>The text one message adds to the input-side and to the output-side buffer.\<close>

definition inputText :: "message \<Rightarrow> jsstring" where
  "inputText m = appendText [] (inputTranscription m)"

definition outputText :: "message \<Rightarrow> jsstring" where
  "outputText m = appendText [] (outputTranscription m)"

text \<open>The start timestamps handed to \<open>source.start\<close>, in the order of the calls.\<close>

fun startTimes :: "action list \<Rightarrow> real list" where
  "startTimes [] = []"
| "startTimes (SourceStart src t # acts) = t # startTimes acts"
| "startTimes (a # acts) = startTimes acts"

text \<open>
  A message that carries an audio chunk which decodes to a buffer of non-negative
  duration, and its arrival: the output clock when it is handled, and that duration.
\<close>

definition buffer :: "message \<times> reading \<Rightarrow> bool" where
  "buffer p =
     (audioData (fst p) \<noteq> None \<and> audioData (fst p) \<noteq> Some [] \<and>
      (case decoded (snd p) of None \<Rightarrow> False | Some d \<Rightarrow> 0 \<le> d))"

definition arrival :: "message \<times> reading \<Rightarrow> real \<times> real" where
  "arrival p = (currentTime (snd p), (case decoded (snd p) of None \<Rightarrow> 0 | Some d \<Rightarrow> d))"

text \<open>
  The scheduler in the specification's words: \<open>startAt\<close> is the maximum of the next
  free timestamp and the output clock, and the next free timestamp becomes
  \<open>startAt + duration\<close>.
\<close>

fun spec_startTimes :: "real \<Rightarrow> (real \<times> real) list \<Rightarrow> real list" where
  "spec_startTimes nextFree [] = []"
| "spec_startTimes nextFree ((clock, duration) # bs) =
     max nextFree clock # spec_startTimes (max nextFree clock + duration) bs"

text \<open>No overlap: each (start, duration) ends before the next one starts.\<close>

fun backToBack :: "(real \<times> real) list \<Rightarrow> bool" where
  "backToBack [] = True"
| "backToBack [b] = True"
| "backToBack ((t, d) # (t', d') # bs) = (t + d \<le> t' \<and> backToBack ((t', d') # bs))"

text \<open>
  What the outside world sees of a run, each in the order of the calls: the
  \<open>sendRealtimeInput\<close> calls (handle and blob), the \<open>close()\<close> calls, the stopped
  buffer sources, the cleared timeouts, and the \<open>getUserMedia\<close> requests that begin an
  attempt to open a session.
\<close>

fun sends :: "action list \<Rightarrow> (nat \<times> jsstring) list" where
  "sends [] = []"
| "sends (SendRealtimeInput h pcmBlob # acts) = (h, pcmBlob) # sends acts"
| "sends (a # acts) = sends acts"

fun closes :: "action list \<Rightarrow> nat list" where
  "closes [] = []"
| "closes (Close h # acts) = h # closes acts"
| "closes (a # acts) = closes acts"

fun sourceStops :: "action list \<Rightarrow> nat list" where
  "sourceStops [] = []"
| "sourceStops (SourceStop src # acts) = src # sourceStops acts"
| "sourceStops (a # acts) = sourceStops acts"

fun cleared :: "action list \<Rightarrow> nat list" where
  "cleared [] = []"
| "cleared (ClearTimeout t # acts) = t # cleared acts"
| "cleared (a # acts) = cleared acts"

fun attempts :: "action list \<Rightarrow> nat list" where
  "attempts [] = []"
| "attempts (GetUserMedia c # acts) = c # attempts acts"
| "attempts (a # acts) = attempts acts"


text \<open>The status \<open>stopTranslation\<close> sets: no flag, no error.\<close>

definition idle :: TranslationState where
  "idle = \<lparr> isActive = False, isConnecting = False, isReconnecting = False, error = None \<rparr>"

text \<open>The connect requests of a run, with the framing each was given.\<close>

fun connects :: "action list \<Rightarrow> (nat \<times> framing) list" where
  "connects [] = []"
| "connects (Connect h f # acts) = (h, f) # connects acts"
| "connects (a # acts) = connects acts"

text \<open>
  The calls made on session handles, sends and closes together, in the order they are
  made; and the blobs the capture callback was invoked with, in the order of the
  invocations.
\<close>

fun transport :: "action list \<Rightarrow> action list" where
  "transport [] = []"
| "transport (SendRealtimeInput h pcmBlob # acts) = SendRealtimeInput h pcmBlob # transport acts"
| "transport (Close h # acts) = Close h # transport acts"
| "transport (a # acts) = transport acts"

fun pcmBlobs :: "event list \<Rightarrow> jsstring list" where
  "pcmBlobs [] = []"
| "pcmBlobs (AudioProcess pcmBlob now1 now2 # es) = pcmBlob # pcmBlobs es"
| "pcmBlobs (e # es) = pcmBlobs es"

text \<open>
  The four translation states read off the flags the way the component renders them:
  connecting, active and reconnecting are the flags, idle is none of them. The number of
  states that hold at once.
\<close>

definition statesHolding :: "TranslationState \<Rightarrow> nat" where
  "statesHolding st =
     length (filter id [\<not> isActive st \<and> \<not> isConnecting st \<and> \<not> isReconnecting st,
                        isConnecting st, isActive st, isReconnecting st])"

text \<open>
  The two buttons: start is rendered when neither \<open>isActive\<close> nor
  \<open>isReconnecting\<close> is set and is disabled while \<open>isConnecting\<close>; stop is
  rendered otherwise. A run is feasible when each user event in it is offered in the
  state it is dispatched in.
\<close>

definition offered :: "app \<Rightarrow> event \<Rightarrow> bool" where
  "offered s e =
     (case e of
        UserStart \<Rightarrow> \<not> isActive (status s) \<and> \<not> isReconnecting (status s) \<and>
                     \<not> isConnecting (status s)
      | UserStop \<Rightarrow> isActive (status s) \<or> isReconnecting (status s)
      | _ \<Rightarrow> True)"

fun feasible :: "event list \<Rightarrow> app \<Rightarrow> bool" where
  "feasible [] s = True"
| "feasible (e # es) s = (offered s e \<and> feasible es (fst (dispatch e s)))"

text \<open>
  The stretch between a rotation's start and the swap: events other than a user start,
  a user stop and the resolution of a session promise.
\<close>

definition swapFree :: "event \<Rightarrow> bool" where
  "swapFree e =
     (case e of UserStart \<Rightarrow> False | UserStop \<Rightarrow> False | SessionResolved h \<Rightarrow> False | _ \<Rightarrow> True)"

text \<open>
  A handle whose \<open>onopen\<close> has not run (not requested yet, or pending), and one whose
  \<open>onopen\<close> has run while its promise has not resolved yet.
\<close>

definition unopened :: "app \<Rightarrow> nat \<Rightarrow> bool" where
  "unopened s h = (case conns s h of None \<Rightarrow> True | Some cn \<Rightarrow> phase cn = Pending)"

definition openConfirmed :: "app \<Rightarrow> nat \<Rightarrow> bool" where
  "openConfirmed s h =
     (case conns s h of
        None \<Rightarrow> False
      | Some cn \<Rightarrow> (case phase cn of Opened old \<Rightarrow> True | _ \<Rightarrow> False))"

text \<open>
  Audio is being captured for handle \<open>h\<close>: it is in the session slot, the stop flag
  is down and the script processor exists. The replacement \<open>new\<close> is awaited while
  \<open>old\<close> serves: if \<open>onopen\<close> has run for it, it read \<open>old\<close> as the old session.
\<close>

definition capturing :: "nat \<Rightarrow> app \<Rightarrow> bool" where
  "capturing h s = (sessionRef s = Some h \<and> \<not> isUserInitiatedStop s \<and> scriptProcessorRef s)"

definition awaiting :: "nat \<Rightarrow> nat \<Rightarrow> app \<Rightarrow> bool" where
  "awaiting old new s =
     (case conns s new of
        None \<Rightarrow> True
      | Some cn \<Rightarrow> phase cn = Pending \<or> phase cn = Opened (Some old))"




section \<open>Sample states and inputs\<close>

text \<open>A conversation whose first connection (handle 0) is open and installed.\<close>

definition connected :: app where
  "connected = fst (run [UserStart, MediaGranted 0, OnOpen 0 1000, SessionResolved 0] (initial, []))"

definition textMessage :: "jsstring option \<Rightarrow> jsstring option \<Rightarrow> bool \<Rightarrow> message" where
  "textMessage i out done =
     \<lparr> audioData = None, inputTranscription = map_option Some i,
       outputTranscription = map_option Some out, turnComplete = done \<rparr>"

definition silent :: reading where
  "silent = \<lparr> currentTime = 0, decoded = None, random1 = js ''0.1'', date1 = 5000,
              random2 = js ''0.2'', date2 = 5001 \<rparr>"

definition audioMessage :: message where
  "audioMessage = \<lparr> audioData = Some (js ''AAAA''), inputTranscription = None,
                    outputTranscription = None, turnComplete = False \<rparr>"

definition heard :: "real \<Rightarrow> real \<Rightarrow> reading" where
  "heard clock d = \<lparr> currentTime = clock, decoded = Some d, random1 = [], date1 = 0,
                     random2 = [], date2 = 0 \<rparr>"



text \<open>
  Runs from the initial state: a rotation begins when the timer of the first session
  fires; the user stops while the replacement is pending; the replacement opens and the
  first session is retired. And the events of one rotation window with audio captured
  throughout.
\<close>

definition rotationTrace :: "event list" where
  "rotationTrace = [UserStart, MediaGranted 0, OnOpen 0 1000, SessionResolved 0, TimerFired 0]"

definition stopMidRotation :: "event list" where
  "stopMidRotation = rotationTrace @ [MediaGranted 1, UserStop]"

definition retiringClose :: "event list" where
  "retiringClose = rotationTrace @ [MediaGranted 1, OnOpen 1 2000, SessionResolved 1]"

definition rotationWindow :: "event list" where
  "rotationWindow =
     [AudioProcess (js ''AQ'') 0 0, TimerFired 0, AudioProcess (js ''Ag'') 0 0, MediaGranted 1,
      AudioProcess (js ''Aw'') 0 0, OnOpen 1 2000, AudioProcess (js ''BA'') 0 0]"


text \<open>The first conversation after one completed turn.\<close>

definition spoken :: app where
  "spoken =
     fst (run (inbound 0 [(textMessage (Some (js '' hi'')) None False, silent),
                          (textMessage None (Some (js ''salut '')) False, silent),
                          (textMessage None None True, silent)]) (connected, []))"







section \<open>Runs\<close>

lemma run_append: "run (es @ es') sa = run es' (run es sa)"
  by (induction es sa rule: run.induct) simp_all

lemma run_acts: "run es (s, acts) = (fst (run es (s, [])), acts @ snd (run es (s, [])))"
proof (induction es arbitrary: s acts)
  case Nil
  then show ?case by simp
next
  case (Cons e es)
  obtain s1 a1 where d: "dispatch e s = (s1, a1)" by (cases "dispatch e s")
  show ?case
    using Cons.IH [of s1 "acts @ a1"] Cons.IH [of s1 "a1"] by (simp add: d)
qed

lemma run_Cons:
  "run (e # es) (s, []) =
     (fst (run es (fst (dispatch e s), [])),
      snd (dispatch e s) @ snd (run es (fst (dispatch e s), [])))"
  using run_acts [of es "fst (dispatch e s)" "snd (dispatch e s)"]
  by (simp add: case_prod_beta)

section \<open>Transcript assembly\<close>

lemma appendText_app: "appendText buf t = buf @ appendText [] t"
  by (simp add: appendText_def split: option.splits)

lemma onmessage_text:
  assumes "decodes m r"
  shows "currentInputTransRef (fst (onmessage m r s)) =
           (if turnComplete m then [] else currentInputTransRef s @ inputText m)"
    and "currentOutputTransRef (fst (onmessage m r s)) =
           (if turnComplete m then [] else currentOutputTransRef s @ outputText m)"
    and "transcriptions (fst (onmessage m r s)) =
           (if turnComplete m
            then transcriptions s @
                 turnRecords r (trim (currentInputTransRef s @ inputText m))
                               (trim (currentOutputTransRef s @ outputText m))
            else transcriptions s)"
    and "conns (fst (onmessage m r s)) = conns s"
  using assms appendText_app [of "currentInputTransRef s"] appendText_app [of "currentOutputTransRef s"]
  by (auto simp: onmessage_def assemble_def decodes_def inputText_def outputText_def Let_def
        turnRecords_def split: option.splits)

lemma dispatch_OnMessage:
  assumes "conns s h \<noteq> None"
  shows "dispatch (OnMessage h m r) s =
           (fst (onmessage m r s) \<lparr> historyRef := transcriptions (fst (onmessage m r s)) \<rparr>,
            snd (onmessage m r s))"
  using assms by (auto simp: dispatch_def case_prod_beta)

lemma partials_accumulate:
  assumes "conns s h \<noteq> None"
    and "list_all (\<lambda>(m, r). \<not> turnComplete m \<and> decodes m r) ps"
  shows "currentInputTransRef (fst (run (inbound h ps) (s, []))) =
           currentInputTransRef s @ concat (map (inputText \<circ> fst) ps) \<and>
         currentOutputTransRef (fst (run (inbound h ps) (s, []))) =
           currentOutputTransRef s @ concat (map (outputText \<circ> fst) ps) \<and>
         transcriptions (fst (run (inbound h ps) (s, []))) = transcriptions s \<and>
         conns (fst (run (inbound h ps) (s, []))) = conns s"
  using assms
proof (induction ps arbitrary: s)
  case Nil
  then show ?case by (simp add: inbound_def)
next
  case (Cons p ps)
  obtain m r where p: "p = (m, r)" by (cases p)
  let ?s1 = "fst (dispatch (OnMessage h m r) s)"
  from Cons.prems p have m: "\<not> turnComplete m" "decodes m r" by simp_all
  have s1: "currentInputTransRef ?s1 = currentInputTransRef s @ inputText m"
    "currentOutputTransRef ?s1 = currentOutputTransRef s @ outputText m"
    "transcriptions ?s1 = transcriptions s" "conns ?s1 = conns s"
    using m Cons.prems(1) by (simp_all add: dispatch_OnMessage onmessage_text)
  have "run (inbound h (p # ps)) (s, []) =
          (fst (run (inbound h ps) (?s1, [])),
           snd (dispatch (OnMessage h m r) s) @ snd (run (inbound h ps) (?s1, [])))"
    using run_Cons [of "OnMessage h m r" "inbound h ps" s] by (simp add: inbound_def p)
  moreover have "conns ?s1 h \<noteq> None" using s1 Cons.prems(1) by simp
  moreover have "list_all (\<lambda>(m, r). \<not> turnComplete m \<and> decodes m r) ps"
    using Cons.prems(2) by simp
  ultimately show ?case
    using Cons.IH [of ?s1] s1 by (simp add: p)
qed

text \<open>
  Claim C3. Let partial-text messages arrive on a connection, none of them completing
  the turn, followed by one message that completes it. Then the run appends to the log
  at most two records: the input-side record (type user) with the trimmed input text,
  strictly before the output-side record (type model) with the trimmed output text,
  each left out when its trimmed text is empty; and both turn buffers are empty
  afterwards, whether or not a record was appended.
\<close>

theorem turn_completion_records:
  assumes known: "conns s h \<noteq> None"
    and partials: "list_all (\<lambda>(m, r). \<not> turnComplete m \<and> decodes m r) ps"
    and completion: "turnComplete m \<and> decodes m r"
  shows "let s' = fst (run (inbound h (ps @ [(m, r)])) (s, []));
             uText = trim (currentInputTransRef s @ concat (map (inputText \<circ> fst) (ps @ [(m, r)])));
             mText = trim (currentOutputTransRef s @ concat (map (outputText \<circ> fst) (ps @ [(m, r)])))
         in (\<exists>new. transcriptions s' = transcriptions s @ new \<and>
                   map (\<lambda>t. (ttype t, ttext t)) new =
                     (if uText = [] then [] else [(User, uText)]) @
                     (if mText = [] then [] else [(Model, mText)]) \<and>
                   length new \<le> 2) \<and>
            currentInputTransRef s' = [] \<and> currentOutputTransRef s' = []"
proof -
  let ?s1 = "fst (run (inbound h ps) (s, []))"
  let ?s2 = "fst (dispatch (OnMessage h m r) ?s1)"
  have acc: "currentInputTransRef ?s1 = currentInputTransRef s @ concat (map (inputText \<circ> fst) ps)"
    "currentOutputTransRef ?s1 = currentOutputTransRef s @ concat (map (outputText \<circ> fst) ps)"
    "transcriptions ?s1 = transcriptions s" "conns ?s1 = conns s"
    using partials_accumulate [OF known partials] by simp_all
  have run: "fst (run (inbound h (ps @ [(m, r)])) (s, [])) = ?s2"
    using run_acts [of "[OnMessage h m r]" ?s1 "snd (run (inbound h ps) (s, []))"]
    by (simp add: inbound_def run_append case_prod_beta)
  have k1: "conns ?s1 h \<noteq> None" using acc known by simp
  let ?u = "trim (currentInputTransRef s @ concat (map (inputText \<circ> fst) (ps @ [(m, r)])))"
  let ?v = "trim (currentOutputTransRef s @ concat (map (outputText \<circ> fst) (ps @ [(m, r)])))"
  have tr: "transcriptions ?s2 = transcriptions s @ turnRecords r ?u ?v"
    using completion acc by (simp add: dispatch_OnMessage [OF k1] onmessage_text)
  have bufs: "currentInputTransRef ?s2 = []" "currentOutputTransRef ?s2 = []"
    using completion by (simp_all add: dispatch_OnMessage [OF k1] onmessage_text)
  have shape: "map (\<lambda>t. (ttype t, ttext t)) (turnRecords r ?u ?v) =
                 (if ?u = [] then [] else [(User, ?u)]) @ (if ?v = [] then [] else [(Model, ?v)])"
    by (simp add: turnRecords_def)
  have len: "length (turnRecords r ?u ?v) \<le> 2"
    by (simp add: turnRecords_def)
  show ?thesis
    unfolding Let_def run using tr bufs shape len by blast
qed

text \<open>The definitions a concrete run is evaluated with.\<close>

lemmas handlers = initial_def dispatch_def startTranslation_def cleanupAudio_def connect_def onopen_def resolved_def timeout_def
  stopTranslation_def onclose_def catch_def onerror_def onaudioprocess_def SESSION_MAX_DURATION_def recentHistory_def

lemma connected_conns: "conns connected 0 \<noteq> None"
  by (simp add: connected_def handlers)

theorem turn_completion_records_witness:
  "map (\<lambda>t. (ttype t, ttext t))
     (transcriptions (fst (run (inbound 0
        [(textMessage (Some (js '' hi'')) None False, silent),
         (textMessage None (Some (js ''salut '')) False, silent),
         (textMessage None None True, silent)]) (connected, [])))) =
   [(User, js ''hi''), (Model, js ''salut'')]"
proof -
  have t: "transcriptions connected = []"
    by (simp add: connected_def handlers)
  have b: "currentInputTransRef connected = []" "currentOutputTransRef connected = []"
    by (simp_all add: connected_def handlers)
  have p: "list_all (\<lambda>(m, r). \<not> turnComplete m \<and> decodes m r)
     [(textMessage (Some (js '' hi'')) None False, silent),
      (textMessage None (Some (js ''salut '')) False, silent)]"
    by (simp add: textMessage_def decodes_def)
  have c: "turnComplete (textMessage None None True) \<and> decodes (textMessage None None True) silent"
    by (simp add: textMessage_def decodes_def)
  show ?thesis
    using turn_completion_records [OF connected_conns p c]
    by (auto simp: Let_def t b inputText_def outputText_def appendText_def textMessage_def
          trim_def js_def isWhiteSpace_def)
qed

section \<open>Playback scheduling\<close>

lemma startTimes_append: "startTimes (as @ bs) = startTimes as @ startTimes bs"
  by (induction as rule: startTimes.induct) simp_all

lemma onmessage_buffer:
  assumes "buffer (m, r)" and "audioContextOutRef s"
  shows "startTimes (snd (onmessage m r s)) = [max (nextStartTimeRef s) (currentTime r)] \<and>
         nextStartTimeRef (fst (onmessage m r s)) =
           max (nextStartTimeRef s) (currentTime r) + snd (arrival (m, r)) \<and>
         audioContextOutRef (fst (onmessage m r s))"
proof -
  from assms(1) obtain d where d: "decoded r = Some d"
    by (cases "decoded r") (simp_all add: buffer_def)
  from assms(1) have a: "audioData m \<noteq> None" "audioData m \<noteq> Some []"
    by (simp_all add: buffer_def)
  have asm: "nextStartTimeRef (assemble m r s') = nextStartTimeRef s' \<and>
             audioContextOutRef (assemble m r s') = audioContextOutRef s'" for s'
    by (simp add: assemble_def Let_def)
  show ?thesis
    using a assms(2) by (simp add: onmessage_def Let_def d arrival_def asm)
qed

lemma assemble_conns: "conns (assemble m r s) = conns s"
  by (simp add: assemble_def Let_def)

lemma onmessage_conns: "conns (fst (onmessage m r s)) = conns s"
  by (simp add: onmessage_def Let_def assemble_conns split: option.split)

lemma spec_startTimes_lower:
  "t \<in> set (spec_startTimes nextFree bs) \<Longrightarrow> list_all (\<lambda>b. 0 \<le> snd b) bs \<Longrightarrow> nextFree \<le> t"
proof (induction bs arbitrary: nextFree)
  case Nil
  then show ?case by simp
next
  case (Cons b bs)
  obtain clock d where b: "b = (clock, d)" by (cases b)
  from Cons.prems(2) b have d: "0 \<le> d" and rest: "list_all (\<lambda>b. 0 \<le> snd b) bs" by simp_all
  from Cons.prems(1) b
  consider "t = max nextFree clock" | "t \<in> set (spec_startTimes (max nextFree clock + d) bs)"
    by auto
  then show ?case
  proof cases
    case 1
    then show ?thesis by simp
  next
    case 2
    then have "max nextFree clock + d \<le> t" by (rule Cons.IH [OF _ rest])
    with d show ?thesis by linarith
  qed
qed

lemma spec_startTimes_sorted:
  "list_all (\<lambda>b. 0 \<le> snd b) bs \<Longrightarrow> sorted (spec_startTimes nextFree bs)"
proof (induction bs arbitrary: nextFree)
  case Nil
  then show ?case by simp
next
  case (Cons b bs)
  obtain clock d where b: "b = (clock, d)" by (cases b)
  from Cons.prems b have d: "0 \<le> d" and rest: "list_all (\<lambda>b. 0 \<le> snd b) bs" by simp_all
  have low: "max nextFree clock \<le> t" if "t \<in> set (spec_startTimes (max nextFree clock + d) bs)" for t
  proof -
    have "max nextFree clock + d \<le> t" by (rule spec_startTimes_lower [OF that rest])
    with d show ?thesis by linarith
  qed
  have tl: "sorted (spec_startTimes (max nextFree clock + d) bs)"
    by (rule Cons.IH [OF rest])
  show ?case
    unfolding b spec_startTimes.simps sorted_simps using low tl by blast
qed

lemma spec_startTimes_backToBack:
  "backToBack (zip (spec_startTimes nextFree bs) (map snd bs))"
proof (induction bs arbitrary: nextFree)
  case Nil
  then show ?case by simp
next
  case (Cons b bs)
  obtain clock d where b: "b = (clock, d)" by (cases b)
  have tl: "backToBack (zip (spec_startTimes (max nextFree clock + d) bs) (map snd bs))"
    by (rule Cons.IH)
  show ?case
  proof (cases bs)
    case Nil
    then show ?thesis by (simp add: b)
  next
    case (Cons b' bs')
    obtain clock' d' where b': "b' = (clock', d')" by (cases b')
    from tl show ?thesis
      unfolding b Cons b' by simp
  qed
qed

lemma buffers_scheduled:
  assumes "conns s h \<noteq> None" and "audioContextOutRef s" and "list_all buffer ps"
  shows "startTimes (snd (run (inbound h ps) (s, []))) =
           spec_startTimes (nextStartTimeRef s) (map arrival ps)"
  using assms
proof (induction ps arbitrary: s)
  case Nil
  then show ?case by (simp add: inbound_def)
next
  case (Cons p ps)
  obtain m r where p: "p = (m, r)" by (cases p)
  let ?s1 = "fst (dispatch (OnMessage h m r) s)"
  from Cons.prems p have buf: "buffer (m, r)" and rest: "list_all buffer ps" by simp_all
  have d: "dispatch (OnMessage h m r) s =
             (fst (onmessage m r s) \<lparr> historyRef := transcriptions (fst (onmessage m r s)) \<rparr>,
              snd (onmessage m r s))"
    by (rule dispatch_OnMessage [OF Cons.prems(1)])
  have s1: "nextStartTimeRef ?s1 = max (nextStartTimeRef s) (currentTime r) + snd (arrival (m, r))"
    "audioContextOutRef ?s1" "conns ?s1 h \<noteq> None"
    using onmessage_buffer [OF buf Cons.prems(2)] Cons.prems(1) by (simp_all add: d onmessage_conns)
  have a1: "startTimes (snd (dispatch (OnMessage h m r) s)) = [max (nextStartTimeRef s) (currentTime r)]"
    using onmessage_buffer [OF buf Cons.prems(2)] by (simp add: d)
  have "run (inbound h (p # ps)) (s, []) =
          (fst (run (inbound h ps) (?s1, [])),
           snd (dispatch (OnMessage h m r) s) @ snd (run (inbound h ps) (?s1, [])))"
    using run_Cons [of "OnMessage h m r" "inbound h ps" s] by (simp add: inbound_def p)
  then show ?case
    using Cons.IH [OF s1(3) s1(2) rest] a1 s1(1)
    by (simp add: startTimes_append p arrival_def)
qed

text \<open>
  Claim C4. For audio buffers of non-negative durations arriving in order on a
  connection, at any readings of the output clock: each start timestamp is the maximum
  of the next free timestamp and the clock, after which the next free timestamp is
  advanced by the duration (the scheduler of the specification); so the start
  timestamps are non-decreasing, and each buffer starts no earlier than the start of the
  one before it plus that one's duration.
\<close>

theorem playback_starts_do_not_overlap:
  assumes "conns s h \<noteq> None" and "audioContextOutRef s" and "list_all buffer ps"
  shows "startTimes (snd (run (inbound h ps) (s, []))) =
           spec_startTimes (nextStartTimeRef s) (map arrival ps) \<and>
         sorted (startTimes (snd (run (inbound h ps) (s, [])))) \<and>
         backToBack (zip (startTimes (snd (run (inbound h ps) (s, []))))
                         (map (snd \<circ> arrival) ps))"
proof -
  have nonneg: "list_all (\<lambda>b. 0 \<le> snd b) (map arrival ps)"
    using assms(3)
    by (induction ps) (simp_all add: buffer_def arrival_def split: option.splits)
  have eq: "startTimes (snd (run (inbound h ps) (s, []))) =
              spec_startTimes (nextStartTimeRef s) (map arrival ps)"
    by (rule buffers_scheduled [OF assms])
  have srt: "sorted (spec_startTimes (nextStartTimeRef s) (map arrival ps))"
    by (rule spec_startTimes_sorted [OF nonneg])
  have btb: "backToBack (zip (spec_startTimes (nextStartTimeRef s) (map arrival ps))
                             (map (snd \<circ> arrival) ps))"
    using spec_startTimes_backToBack [of "nextStartTimeRef s" "map arrival ps"]
    by (simp only: map_map)
  show ?thesis
    unfolding eq using srt btb by (intro conjI refl)
qed

theorem playback_starts_do_not_overlap_witness:
  "startTimes (snd (run (inbound 0 [(audioMessage, heard 1 2), (audioMessage, heard (3/2) (1/2)),
                                     (audioMessage, heard 5 1)]) (connected, []))) = [1, 3, 5]"
proof -
  have c: "audioContextOutRef connected" "nextStartTimeRef connected = 0"
    by (simp_all add: connected_def handlers)
  have b: "list_all buffer [(audioMessage, heard 1 2), (audioMessage, heard (3/2) (1/2)),
                            (audioMessage, heard 5 1)]"
    by (simp add: buffer_def audioMessage_def heard_def js_def)
  show ?thesis
    using playback_starts_do_not_overlap [OF connected_conns c(1) b]
    by (simp add: c arrival_def heard_def)
qed

section \<open>The transcript log\<close>

lemma assemble_log:
  "transcriptions (assemble m r s) =
     transcriptions s @
     (if turnComplete m
      then turnRecords r (trim (appendText (currentInputTransRef s) (inputTranscription m)))
                         (trim (appendText (currentOutputTransRef s) (outputTranscription m)))
      else [])"
  by (simp add: assemble_def Let_def turnRecords_def)

lemma handle_log_grows: "\<exists>new. transcriptions (fst (handle e s)) = transcriptions s @ new"
proof (cases e)
  case (OnMessage h m r)
  have "\<exists>new. transcriptions (fst (onmessage m r s)) = transcriptions s @ new"
    by (simp add: onmessage_def Let_def assemble_log split: option.split)
  then show ?thesis by (simp add: OnMessage split: option.split)
qed (simp_all add: startTranslation_def stopTranslation_def cleanupAudio_def connect_def catch_def
      onopen_def resolved_def onclose_def onerror_def timeout_def onaudioprocess_def Let_def
      split: option.split phase.split)

lemma dispatch_log_grows: "\<exists>new. transcriptions (fst (dispatch e s)) = transcriptions s @ new"
  using handle_log_grows [of e s] by (simp add: dispatch_def case_prod_beta)

lemma run_log_grows: "\<exists>new. transcriptions (fst (run es (s, []))) = transcriptions s @ new"
proof (induction es arbitrary: s)
  case Nil
  then show ?case by simp
next
  case (Cons e es)
  obtain new1 where n1: "transcriptions (fst (dispatch e s)) = transcriptions s @ new1"
    using dispatch_log_grows by blast
  obtain new2 where n2: "transcriptions (fst (run es (fst (dispatch e s), []))) =
      transcriptions (fst (dispatch e s)) @ new2"
    using Cons.IH by blast
  show ?case
    unfolding run_Cons fst_conv n2 n1 by simp
qed

section \<open>Observed calls\<close>

lemma sends_append: "sends (as @ bs) = sends as @ sends bs"
  by (induction as rule: sends.induct) simp_all

lemma closes_append: "closes (as @ bs) = closes as @ closes bs"
  by (induction as rule: closes.induct) simp_all

lemma sourceStops_append: "sourceStops (as @ bs) = sourceStops as @ sourceStops bs"
  by (induction as rule: sourceStops.induct) simp_all

lemma cleared_append: "cleared (as @ bs) = cleared as @ cleared bs"
  by (induction as rule: cleared.induct) simp_all

lemma sourceStops_map: "sourceStops (map SourceStop xs) = xs"
  by (induction xs) simp_all

lemma closes_map_SourceStop: "closes (map SourceStop xs) = []"
  by (induction xs) simp_all

lemma sends_map_SourceStop: "sends (map SourceStop xs) = []"
  by (induction xs) simp_all

lemma cleared_map_SourceStop: "cleared (map SourceStop xs) = []"
  by (induction xs) simp_all

lemmas observed = sends_append closes_append sourceStops_append cleared_append sourceStops_map
  closes_map_SourceStop sends_map_SourceStop cleared_map_SourceStop

section \<open>Stopping\<close>

lemma stopTranslation_effect:
  "status (fst (stopTranslation s)) = idle \<and>
   isUserInitiatedStop (fst (stopTranslation s)) \<and>
   sessionRef (fst (stopTranslation s)) = None \<and>
   sessionAge (fst (stopTranslation s)) = 0 \<and>
   sourcesRef (fst (stopTranslation s)) = [] \<and>
   nextStartTimeRef (fst (stopTranslation s)) = 0 \<and>
   transcriptions (fst (stopTranslation s)) = transcriptions s \<and>
   closes (snd (stopTranslation s)) = (case sessionRef s of None \<Rightarrow> [] | Some h \<Rightarrow> [h]) \<and>
   cleared (snd (stopTranslation s)) = (case rotationTimerRef s of None \<Rightarrow> [] | Some t \<Rightarrow> [t]) \<and>
   (case rotationTimerRef s of None \<Rightarrow> True | Some t \<Rightarrow> timers (fst (stopTranslation s)) t = None) \<and>
   sourceStops (snd (stopTranslation s)) = sourcesRef s \<and>
   sends (snd (stopTranslation s)) = []"
  by (simp add: stopTranslation_def cleanupAudio_def idle_def observed split: option.split)



lemma closes_set_append: "set (closes (as @ bs)) = set (closes as) \<union> set (closes bs)"
  by (simp add: closes_append)















text \<open>
  Claim C10. \<open>stopTranslation\<close> leaves the transcript log as it was, while it clears
  the session slot, the session age and the status (no flag, no error). A start after
  the stop does not change the log either, and whatever events follow (the new
  conversation's turns among them), the log then is the log before the stop with
  records appended.
\<close>

theorem stop_keeps_transcript_log:
  "transcriptions (fst (stopTranslation s)) = transcriptions s \<and>
   status (fst (stopTranslation s)) = idle \<and>
   sessionRef (fst (stopTranslation s)) = None \<and>
   sessionAge (fst (stopTranslation s)) = 0 \<and>
   transcriptions (fst (run [UserStop, UserStart] (s, []))) = transcriptions s \<and>
   (\<exists>new. transcriptions (fst (run (UserStop # UserStart # es) (s, []))) = transcriptions s @ new)"
proof -
  have start: "transcriptions (fst (dispatch UserStart s')) = transcriptions s'" for s'
    by (simp add: dispatch_def startTranslation_def cleanupAudio_def case_prod_beta Let_def)
  have stop: "transcriptions (fst (dispatch UserStop s)) = transcriptions s"
    using stopTranslation_effect [of s] by (simp add: dispatch_def case_prod_beta)
  have "transcriptions (fst (run [UserStop, UserStart] (s, []))) =
          transcriptions (fst (dispatch UserStart (fst (dispatch UserStop s))))"
    by (simp only: run_Cons fst_conv run.simps(1))
  then have two: "transcriptions (fst (run [UserStop, UserStart] (s, []))) = transcriptions s"
    by (simp only: start stop)
  show ?thesis
    using stopTranslation_effect [of s] run_log_grows [of "UserStop # UserStart # es" s] two
    by simp
qed

theorem stop_keeps_transcript_log_witness:
  "map ttext (transcriptions spoken) = [js ''hi'', js ''salut''] \<and>
   map ttext (transcriptions (fst (run (UserStop # UserStart #
       [MediaGranted 1, OnOpen 1 9000, SessionResolved 1,
        OnMessage 1 (textMessage (Some (js ''yo'')) None True) silent]) (spoken, [])))) =
     [js ''hi'', js ''salut'', js ''yo'']"
proof -
  have s: "map ttext (transcriptions spoken) = [js ''hi'', js ''salut'']"
    by (simp add: spoken_def connected_def inbound_def textMessage_def silent_def js_def
          onmessage_def assemble_def appendText_def turnRecords_def trim_def isWhiteSpace_def
          handlers)
  have "map ttext (transcriptions (fst (run (UserStop # UserStart #
       [MediaGranted 1, OnOpen 1 9000, SessionResolved 1,
        OnMessage 1 (textMessage (Some (js ''yo'')) None True) silent]) (spoken, [])))) =
     map ttext (transcriptions spoken) @ [js ''yo'']"
    using stop_keeps_transcript_log [of spoken "[MediaGranted 1, OnOpen 1 9000, SessionResolved 1,
        OnMessage 1 (textMessage (Some (js ''yo'')) None True) silent]"]
    by (simp add: spoken_def connected_def inbound_def textMessage_def silent_def js_def
          onmessage_def assemble_def appendText_def turnRecords_def trim_def isWhiteSpace_def
          handlers)
  with s show ?thesis by simp
qed

section \<open>Failed attempts\<close>

lemma attempts_append: "attempts (as @ bs) = attempts as @ attempts bs"
  by (induction as rule: attempts.induct) simp_all

lemma attempts_map_SourceStop: "attempts (map SourceStop xs) = []"
  by (induction xs) simp_all











section \<open>The status flags\<close>

lemma assemble_status: "status (assemble m r s) = status s"
  by (simp add: assemble_def Let_def)

lemma onmessage_status: "status (fst (onmessage m r s)) = status s"
  by (simp add: onmessage_def Let_def assemble_status split: option.split)

lemma handle_exclusive:
  assumes "offered s e" and "\<not> (isActive (status s) \<and> isConnecting (status s))"
  shows "\<not> (isActive (status (fst (handle e s))) \<and> isConnecting (status (fst (handle e s))))"
proof (cases e)
  case (OnMessage h m r)
  then show ?thesis using assms(2) by (simp add: onmessage_status split: option.split)
qed (use assms in \<open>auto simp: offered_def startTranslation_def stopTranslation_def cleanupAudio_def
      connect_def catch_def onopen_def resolved_def onclose_def onerror_def timeout_def
      onaudioprocess_def Let_def split: option.split phase.split\<close>)

lemma run_exclusive:
  assumes "feasible es s" and "\<not> (isActive (status s) \<and> isConnecting (status s))"
  shows "\<not> (isActive (status (fst (run es (s, [])))) \<and> isConnecting (status (fst (run es (s, [])))))"
  using assms
proof (induction es arbitrary: s)
  case Nil
  then show ?case by simp
next
  case (Cons e es)
  from Cons.prems(1) have e: "offered s e" and es: "feasible es (fst (dispatch e s))" by simp_all
  have "\<not> (isActive (status (fst (dispatch e s))) \<and> isConnecting (status (fst (dispatch e s))))"
    using handle_exclusive [OF e Cons.prems(2)] by (simp add: dispatch_def case_prod_beta)
  then show ?case
    unfolding run_Cons fst_conv by (rule Cons.IH [OF es])
qed

lemma statesHolding_cases:
  assumes "\<not> (isActive st \<and> isConnecting st)"
  shows "statesHolding st = 1 \<or> statesHolding st = 2 \<and> isReconnecting st"
  using assms by (cases "isActive st"; cases "isConnecting st"; cases "isReconnecting st")
    (simp_all add: statesHolding_def)

text \<open>
  Claim C2, as amended. The status is three flags, not an enumeration. In every status
  reachable from the initial state by a feasible run, \<open>isActive\<close> and
  \<open>isConnecting\<close> are never set together, and either exactly one of the four states
  idle, connecting, active, reconnecting holds, or exactly two hold and one of them is
  reconnecting (the flag a rotation or a recovery sets on top of the others).
\<close>

theorem reachable_status_states:
  assumes "feasible es initial"
  shows "\<not> (isActive (status (fst (run es (initial, [])))) \<and>
            isConnecting (status (fst (run es (initial, []))))) \<and>
         (statesHolding (status (fst (run es (initial, [])))) = 1 \<or>
          statesHolding (status (fst (run es (initial, [])))) = 2 \<and>
          isReconnecting (status (fst (run es (initial, [])))))"
proof -
  have "\<not> (isActive (status initial) \<and> isConnecting (status initial))"
    by (simp add: initial_def)
  then have ex: "\<not> (isActive (status (fst (run es (initial, [])))) \<and>
                     isConnecting (status (fst (run es (initial, [])))))"
    by (rule run_exclusive [OF assms])
  from ex statesHolding_cases [OF ex] show ?thesis by blast
qed

text \<open>
  During a background rotation (the first session's timer has fired) the states active
  and reconnecting hold together, so it is not the case that exactly one state holds.
\<close>

theorem rotation_holds_two_states:
  "isActive (status (fst (run rotationTrace (initial, [])))) \<and>
   isReconnecting (status (fst (run rotationTrace (initial, [])))) \<and>
   statesHolding (status (fst (run rotationTrace (initial, [])))) \<noteq> 1"
  by (simp add: rotationTrace_def statesHolding_def handlers)

theorem reachable_status_states_witness:
  "feasible rotationTrace initial \<and>
   statesHolding (status (fst (run rotationTrace (initial, [])))) = 2 \<and>
   isReconnecting (status (fst (run rotationTrace (initial, []))))"
proof -
  have f: "feasible rotationTrace initial"
    by (simp add: rotationTrace_def offered_def handlers)
  have "statesHolding (status (fst (run rotationTrace (initial, [])))) \<noteq> 1"
    by (simp add: rotationTrace_def statesHolding_def handlers)
  then show ?thesis
    using reachable_status_states [OF f] f by simp
qed

section \<open>Stop and close during a rotation\<close>

text \<open>
  Claim C6, at the run where it fails. The user stops while the replacement (handle 1)
  is pending: the old handle is closed, the slot is empty and the status is idle. When
  the replacement then opens, \<open>onopen\<close> sets the status to active again, and when its
  promise resolves the handle is put in the slot; no \<open>close()\<close> is ever called on it.
  Only the last part of the claim holds: no audio is sent, since the stop flag is up.
\<close>

theorem stop_mid_rotation_reactivates:
  "status (fst (run stopMidRotation (initial, []))) = idle \<and>
   sessionRef (fst (run stopMidRotation (initial, []))) = None \<and>
   closes (snd (run stopMidRotation (initial, []))) = [0] \<and>
   isActive (status (fst (run (stopMidRotation @ [OnOpen 1 2000]) (initial, [])))) \<and>
   closes (snd (run (stopMidRotation @ [OnOpen 1 2000, SessionResolved 1]) (initial, []))) = [0] \<and>
   sessionRef (fst (run (stopMidRotation @ [OnOpen 1 2000, SessionResolved 1]) (initial, []))) = Some 1 \<and>
   isActive (status (fst (run (stopMidRotation @ [OnOpen 1 2000, SessionResolved 1]) (initial, [])))) \<and>
   sends (snd (run (stopMidRotation @ [OnOpen 1 2000, SessionResolved 1, AudioProcess (js ''AQID'') 0 0])
                 (initial, []))) = []"
  by (simp add: stopMidRotation_def rotationTrace_def idle_def handlers)

text \<open>
  Claim C7, at the run where it fails. A rotation succeeds: the replacement (handle 1)
  is in the slot and \<open>close()\<close> was called on the retired handle 0, with the stop flag
  down and \<open>isReconnecting\<close> false both in the status \<open>onclose\<close> closes over and
  in the current one. The \<open>onclose\<close> of the retired handle then starts a recovery:
  \<open>isReconnecting\<close> is set, a third attempt begins and connects with the rotation
  framing.
\<close>

theorem retiring_close_triggers_recovery:
  "closes (snd (run retiringClose (initial, []))) = [0] \<and>
   sessionRef (fst (run retiringClose (initial, []))) = Some 1 \<and>
   \<not> isUserInitiatedStop (fst (run retiringClose (initial, []))) \<and>
   \<not> isReconnecting (status (fst (run retiringClose (initial, [])))) \<and>
   attempts (snd (run retiringClose (initial, []))) = [0, 1] \<and>
   isReconnecting (status (fst (run (retiringClose @ [OnClose 0]) (initial, [])))) \<and>
   attempts (snd (run (retiringClose @ [OnClose 0]) (initial, []))) = [0, 1, 2] \<and>
   connects (snd (run (retiringClose @ [OnClose 0, MediaGranted 2]) (initial, []))) =
     [(0, NewMeeting), (1, Rotation []), (2, Rotation [])]"
  by (simp add: retiringClose_def rotationTrace_def handlers)

section \<open>Routing of captured audio\<close>

lemma transport_append: "transport (as @ bs) = transport as @ transport bs"
  by (induction as rule: transport.induct) simp_all

lemma pcmBlobs_append: "pcmBlobs (es @ es') = pcmBlobs es @ pcmBlobs es'"
  by (induction es rule: pcmBlobs.induct) simp_all

lemma assemble_capturing: "capturing h (assemble m r s) = capturing h s"
  by (simp add: assemble_def capturing_def Let_def)

lemma onmessage_capturing:
  "capturing h (fst (onmessage m r s)) = capturing h s \<and> transport (snd (onmessage m r s)) = []"
  by (simp add: onmessage_def Let_def assemble_capturing split: option.split)
    (simp add: capturing_def)

lemma handle_capturing:
  assumes "capturing h s" and "swapFree e"
  shows "capturing h (fst (handle e s)) \<and>
         transport (snd (handle e s)) = map (SendRealtimeInput h) (pcmBlobs [e])"
proof (cases e)
  case (OnMessage h' m r)
  then show ?thesis using assms(1) onmessage_capturing [of h m r s] by (simp split: option.split)
qed (use assms in \<open>auto simp: capturing_def swapFree_def startTranslation_def connect_def catch_def
      onopen_def onclose_def onerror_def timeout_def onaudioprocess_def Let_def
      split: option.split phase.split\<close>)

lemma assemble_conns_frame: "conns (assemble m r s) = conns s \<and> sessionRef (assemble m r s) = sessionRef s"
  by (simp add: assemble_def Let_def)

lemma handle_awaiting:
  assumes "sessionRef s = Some old" and "swapFree e" and "awaiting old new s"
  shows "awaiting old new (fst (handle e s))"
proof (cases e)
  case (OnMessage h' m r)
  have "conns (fst (onmessage m r s)) = conns s"
    by (simp add: onmessage_def Let_def assemble_conns_frame split: option.split)
  then show ?thesis using assms(3) by (auto simp: OnMessage awaiting_def split: option.splits)
next
  case (OnOpen h now)
  then show ?thesis
    using assms by (auto simp: awaiting_def onopen_def Let_def split: option.split phase.split)
next
  case (MediaGranted c)
  then show ?thesis
    using assms by (auto simp: awaiting_def connect_def Let_def split: option.split)
qed (use assms in \<open>auto simp: awaiting_def swapFree_def startTranslation_def catch_def
      onclose_def onerror_def timeout_def onaudioprocess_def Let_def
      split: option.split\<close>)

lemma run_window:
  assumes "capturing old s" and "list_all swapFree es" and "awaiting old new s"
  shows "capturing old (fst (run es (s, []))) \<and> awaiting old new (fst (run es (s, []))) \<and>
         transport (snd (run es (s, []))) = map (SendRealtimeInput old) (pcmBlobs es)"
  using assms
proof (induction es arbitrary: s)
  case Nil
  then show ?case by simp
next
  case (Cons e es)
  from Cons.prems(2) have e: "swapFree e" and es: "list_all swapFree es" by simp_all
  let ?s1 = "fst (dispatch e s)"
  have slot: "sessionRef s = Some old" using Cons.prems(1) by (simp add: capturing_def)
  have c1: "capturing old ?s1"
    using handle_capturing [OF Cons.prems(1) e]
    by (simp add: dispatch_def case_prod_beta capturing_def)
  have a1: "awaiting old new ?s1"
    using handle_awaiting [OF slot e Cons.prems(3)]
    by (simp add: dispatch_def case_prod_beta awaiting_def)
  have t1: "transport (snd (dispatch e s)) = map (SendRealtimeInput old) (pcmBlobs [e])"
    using handle_capturing [OF Cons.prems(1) e] by (simp add: dispatch_def case_prod_beta)
  have blobs: "pcmBlobs (e # es) = pcmBlobs [e] @ pcmBlobs es"
    using pcmBlobs_append [of "[e]" es] by simp
  show ?case
    unfolding run_Cons fst_conv snd_conv transport_append t1 blobs map_append
    using Cons.IH [OF c1 es a1] by simp
qed

lemma run_capturing:
  assumes "capturing h s" and "list_all swapFree es"
  shows "capturing h (fst (run es (s, []))) \<and>
         transport (snd (run es (s, []))) = map (SendRealtimeInput h) (pcmBlobs es)"
proof -
  show ?thesis
    using assms
  proof (induction es arbitrary: s)
    case Nil
    then show ?case by simp
  next
    case (Cons e es)
    from Cons.prems(2) have e: "swapFree e" and es: "list_all swapFree es" by simp_all
    let ?s1 = "fst (dispatch e s)"
    have c1: "capturing h ?s1"
      using handle_capturing [OF Cons.prems(1) e]
      by (simp add: dispatch_def case_prod_beta capturing_def)
    have t1: "transport (snd (dispatch e s)) = map (SendRealtimeInput h) (pcmBlobs [e])"
      using handle_capturing [OF Cons.prems(1) e] by (simp add: dispatch_def case_prod_beta)
    have blobs: "pcmBlobs (e # es) = pcmBlobs [e] @ pcmBlobs es"
      using pcmBlobs_append [of "[e]" es] by simp
    show ?case
      unfolding run_Cons fst_conv snd_conv transport_append t1 blobs map_append
      using Cons.IH [OF c1 es] by simp
  qed
qed

text \<open>
  Claim C1. Let \<open>old\<close> be in the session slot with audio being captured, and let the
  replacement \<open>new\<close> not have opened yet. Over any events up to the swap (no user start
  or stop, no promise resolved) in which \<open>onopen\<close> of \<open>new\<close> runs, then the
  resolution of \<open>new\<close>'s promise, then any such events again: the calls made on
  session handles are exactly one send to \<open>old\<close> for each captured blob before the
  swap, in order, then one \<open>close()\<close> of \<open>old\<close>, then one send to \<open>new\<close> for each
  captured blob after it. The slot holds \<open>old\<close> up to the swap and \<open>new\<close> after it.
\<close>

theorem rotation_routes_audio_to_one_handle:
  assumes "sessionRef s = Some old" and "\<not> isUserInitiatedStop s" and "scriptProcessorRef s"
    and "new \<noteq> old" and "unopened s new"
    and "list_all swapFree before" and "openConfirmed (fst (run before (s, []))) new"
    and "list_all swapFree after"
  shows "sessionRef (fst (run before (s, []))) = Some old \<and>
         transport (snd (run (before @ SessionResolved new # after) (s, []))) =
           map (SendRealtimeInput old) (pcmBlobs before) @ [Close old] @
           map (SendRealtimeInput new) (pcmBlobs after) \<and>
         sessionRef (fst (run (before @ SessionResolved new # after) (s, []))) = Some new"
proof -
  let ?s1 = "fst (run before (s, []))"
  let ?s2 = "fst (dispatch (SessionResolved new) ?s1)"
  have cap: "capturing old s" using assms(1-3) by (simp add: capturing_def)
  have aw: "awaiting old new s"
    using assms(5) by (auto simp: awaiting_def unopened_def split: option.splits)
  have w: "capturing old ?s1" "awaiting old new ?s1"
    "transport (snd (run before (s, []))) = map (SendRealtimeInput old) (pcmBlobs before)"
    using run_window [OF cap assms(6) aw] by simp_all
  from assms(7) w(2) obtain cn where cn: "conns ?s1 new = Some cn" "phase cn = Opened (Some old)"
    by (auto simp: openConfirmed_def awaiting_def split: option.splits phase.splits)
  have swap: "capturing new ?s2" "transport (snd (dispatch (SessionResolved new) ?s1)) = [Close old]"
    using w(1) cn assms(4)
    by (simp_all add: dispatch_def resolved_def capturing_def case_prod_beta)
  have post: "capturing new (fst (run after (?s2, [])))"
    "transport (snd (run after (?s2, []))) = map (SendRealtimeInput new) (pcmBlobs after)"
    using run_capturing [OF swap(1) assms(8)] by simp_all
  have split: "run (before @ SessionResolved new # after) (s, []) =
                 (fst (run after (?s2, [])),
                  snd (run before (s, [])) @ snd (dispatch (SessionResolved new) ?s1) @
                  snd (run after (?s2, [])))"
  proof -
    have "run (before @ SessionResolved new # after) (s, []) =
            run (SessionResolved new # after) (?s1, snd (run before (s, [])))"
      by (simp only: run_append prod.collapse)
    also have "\<dots> = (fst (run (SessionResolved new # after) (?s1, [])),
                      snd (run before (s, [])) @ snd (run (SessionResolved new # after) (?s1, [])))"
      by (rule run_acts)
    finally show ?thesis
      by (simp only: run_Cons fst_conv snd_conv)
  qed
  show ?thesis
    using w(1) post swap(2) w(3)
    by (simp add: split transport_append capturing_def)
qed

theorem rotation_routes_audio_to_one_handle_witness:
  "transport (snd (run (rotationWindow @ SessionResolved 1 # [AudioProcess (js ''BQ'') 0 0, OnClose 0,
                                                               AudioProcess (js ''Bg'') 0 0])
                    (connected, []))) =
     [SendRealtimeInput 0 (js ''AQ''), SendRealtimeInput 0 (js ''Ag''),
      SendRealtimeInput 0 (js ''Aw''), SendRealtimeInput 0 (js ''BA''), Close 0,
      SendRealtimeInput 1 (js ''BQ''), SendRealtimeInput 1 (js ''Bg'')]"
proof -
  have s: "sessionRef connected = Some 0" "\<not> isUserInitiatedStop connected"
    "scriptProcessorRef connected" "unopened connected 1"
    by (simp_all add: connected_def unopened_def handlers)
  have b: "list_all swapFree rotationWindow"
    by (simp add: rotationWindow_def swapFree_def)
  have a: "list_all swapFree [AudioProcess (js ''BQ'') 0 0, OnClose 0, AudioProcess (js ''Bg'') 0 0]"
    by (simp add: swapFree_def)
  have n: "(1::nat) \<noteq> 0" by simp
  have opened: "openConfirmed (fst (run rotationWindow (connected, []))) 1"
    by (simp add: rotationWindow_def connected_def openConfirmed_def js_def handlers)
  show ?thesis
    using rotation_routes_audio_to_one_handle [OF s(1) s(2) s(3) n s(4) b opened a]
    by (simp add: rotationWindow_def)
qed

section \<open>The codec round trip\<close>

lemma sextets:
  "list_all (\<lambda>s. charSextet (sextetChar s) = Some s \<and> sextetChar s \<noteq> CHR ''='') [0..<64]"
  by code_simp

lemma sextet:
  assumes "s < 64"
  shows "charSextet (sextetChar s) = Some s" and "sextetChar s \<noteq> CHR ''=''"
  using sextets assms by (simp_all add: list_all_iff)

lemma unat_byte: "unat (a :: 8 word) < 256"
  using unsigned_less [of a, where 'a = nat] by simp

lemma byte_of_nat: "of_nat (unat (a :: 8 word)) = a"
  by simp

lemma high_low: "(m * 16 + r) div 16 = m \<and> (m * 16 + r) mod 16 = r" if "r < 16" for m r :: nat
  using that by simp

lemma high_low4: "(m * 4 + r) div 4 = m \<and> (m * 4 + r) mod 4 = r" if "r < 4" for m r :: nat
  using that by simp

lemma nibbles: "x div 16 < 16 \<and> x div 64 < 4 \<and> x div 4 < 64" if "x < 256" for x :: nat
  using that by (simp add: div_less_iff_less_mult)

lemma sextet_bounds:
  "m mod 4 * 16 + r < 64" if "r < 16" for m r :: nat
proof -
  have "m mod 4 \<le> 3" by simp
  then have "m mod 4 * 16 \<le> 48" by simp
  with that show ?thesis by simp
qed

lemma sextet_bounds':
  "m mod 16 * 4 + r < 64" if "r < 4" for m r :: nat
proof -
  have "m mod 16 \<le> 15" by simp
  then have "m mod 16 * 4 \<le> 60" by simp
  with that show ?thesis by simp
qed

lemma quad_one:
  fixes a :: "8 word"
  shows "quad (sextetChar (unat a div 4)) (sextetChar (unat a mod 4 * 16)) CHR ''='' CHR ''='' = Some [a]"
proof -
  have a: "unat a < 256" by (rule unat_byte)
  have s0: "unat a div 4 < 64" using nibbles [OF a] by simp
  have s1: "unat a mod 4 * 16 < 64" using sextet_bounds [of 0 "unat a"] by simp
  have v: "unat a div 4 * 4 + unat a mod 4 * 16 div 16 = unat a" by simp
  show ?thesis
    by (simp only: quad_def sextet [OF s0] sextet [OF s1] prod.case option.case simp_thms
          if_True if_False v byte_of_nat)
qed

lemma quad_two:
  fixes a b :: "8 word"
  shows "quad (sextetChar (unat a div 4)) (sextetChar (unat a mod 4 * 16 + unat b div 16))
              (sextetChar (unat b mod 16 * 4)) CHR ''='' = Some [a, b]"
proof -
  have a: "unat a < 256" and b: "unat b < 256" by (rule unat_byte)+
  have bh: "unat b div 16 < 16" using nibbles [OF b] by simp
  have s0: "unat a div 4 < 64" using nibbles [OF a] by simp
  have s1: "unat a mod 4 * 16 + unat b div 16 < 64" by (rule sextet_bounds [OF bh])
  have s2: "unat b mod 16 * 4 < 64" using sextet_bounds' [of 0 "unat b"] by simp
  have va: "unat a div 4 * 4 + (unat a mod 4 * 16 + unat b div 16) div 16 = unat a"
    using high_low [OF bh, of "unat a mod 4"] by simp
  have vb: "(unat a mod 4 * 16 + unat b div 16) mod 16 * 16 + unat b mod 16 * 4 div 4 = unat b"
    using high_low [OF bh, of "unat a mod 4"] by simp
  show ?thesis
    by (simp only: quad_def sextet [OF s0] sextet [OF s1] sextet [OF s2] prod.case option.case
          simp_thms if_True if_False va vb byte_of_nat)
qed

lemma quad_three:
  fixes a b c :: "8 word"
  shows "quad (sextetChar (unat a div 4)) (sextetChar (unat a mod 4 * 16 + unat b div 16))
              (sextetChar (unat b mod 16 * 4 + unat c div 64)) (sextetChar (unat c mod 64)) =
           Some [a, b, c]"
proof -
  have a: "unat a < 256" and b: "unat b < 256" and c: "unat c < 256" by (rule unat_byte)+
  have bh: "unat b div 16 < 16" using nibbles [OF b] by simp
  have ch: "unat c div 64 < 4" using nibbles [OF c] by simp
  have s0: "unat a div 4 < 64" using nibbles [OF a] by simp
  have s1: "unat a mod 4 * 16 + unat b div 16 < 64" by (rule sextet_bounds [OF bh])
  have s2: "unat b mod 16 * 4 + unat c div 64 < 64" by (rule sextet_bounds' [OF ch])
  have s3: "unat c mod 64 < 64" by simp
  have va: "unat a div 4 * 4 + (unat a mod 4 * 16 + unat b div 16) div 16 = unat a"
    using high_low [OF bh, of "unat a mod 4"] by simp
  have vb: "(unat a mod 4 * 16 + unat b div 16) mod 16 * 16 + (unat b mod 16 * 4 + unat c div 64) div 4 =
              unat b"
    using high_low [OF bh, of "unat a mod 4"] high_low4 [OF ch, of "unat b mod 16"] by simp
  have vc: "(unat b mod 16 * 4 + unat c div 64) mod 4 * 64 + unat c mod 64 = unat c"
    using high_low4 [OF ch, of "unat b mod 16"] by simp
  show ?thesis
    by (simp only: quad_def sextet [OF s0] sextet [OF s1] sextet [OF s2] sextet [OF s3]
          prod.case option.case simp_thms if_True if_False va vb vc byte_of_nat)
qed

lemma base64_Nil: "base64 bs = [] \<longleftrightarrow> bs = []"
  by (cases bs rule: base64.cases) simp_all

lemma unbase64_base64: "unbase64 (base64 bs) = Some bs"
proof (induction bs rule: base64.induct)
  case 1
  then show ?case by simp
next
  case (2 a)
  then show ?case by (simp add: quad_one)
next
  case (3 a b)
  then show ?case by (simp add: quad_two)
next
  case (4 a b c bs)
  then show ?case by (simp add: quad_three base64_Nil)
qed

lemma word_cat_le16:
  "word_cat (ucast (drop_bit 8 v) :: 8 word) (ucast v :: 8 word) = (v :: 16 word)"
  by (rule bit_word_eqI) (auto simp: bit_simps)

lemma unle16_le16: "unle16 (concat (map le16 vs)) = Some vs"
  by (induction vs) (simp_all add: le16_def word_cat_le16)

lemma sint_int16:
  assumes "- 32768 \<le> m" and "m \<le> 32767"
  shows "sint (word_of_int m :: 16 word) = m"
  using assms by (simp add: sint_sbintrunc' signed_take_bit_int_eq_self)

lemma trunc_near: "\<bar>real_of_int (trunc y) - y\<bar> < 1"
proof (cases "y < 0")
  case True
  have "real_of_int \<lceil>y\<rceil> - 1 < y" and "y \<le> real_of_int \<lceil>y\<rceil>"
    using ceiling_correct [of y] by simp_all
  then have "\<bar>real_of_int \<lceil>y\<rceil> - y\<bar> < 1" by linarith
  with True show ?thesis by (simp add: trunc_def)
next
  case False
  have "real_of_int \<lfloor>y\<rfloor> \<le> y" and "y < real_of_int \<lfloor>y\<rfloor> + 1"
    using floor_correct [of y] by simp_all
  then have "\<bar>real_of_int \<lfloor>y\<rfloor> - y\<bar> < 1" by linarith
  with False show ?thesis by (simp add: trunc_def)
qed

lemma trunc_between:
  assumes "real_of_int a \<le> y" and "y \<le> real_of_int b"
  shows "a \<le> trunc y \<and> trunc y \<le> b"
proof (cases "y < 0")
  case True
  have "a \<le> \<lceil>y\<rceil>" using assms(1) by (simp add: le_ceiling_iff)
  moreover have "\<lceil>y\<rceil> \<le> b" using assms(2) by (simp add: ceiling_le_iff)
  ultimately show ?thesis using True by (simp add: trunc_def)
next
  case False
  have "a \<le> \<lfloor>y\<rfloor>" using assms(1) by (simp add: le_floor_iff)
  moreover have "\<lfloor>y\<rfloor> \<le> b" using assms(2) by (simp add: floor_le_iff)
  ultimately show ?thesis using False by (simp add: trunc_def)
qed

lemma sample_round_trip:
  assumes "- 1 \<le> x" and "x \<le> 1"
  shows "\<bar>fromInt16 (toInt16 x) - x\<bar> \<le> 1 / 32768"
proof -
  let ?y = "x * 32768"
  let ?t = "trunc ?y"
  let ?m = "max (- 32768) (min 32767 ?t)"
  have c: "clampSample x = x" using assms by (simp add: clampSample_def)
  have y: "real_of_int (- 32768) \<le> ?y" "?y \<le> real_of_int 32768" using assms by simp_all
  have t: "- 32768 \<le> ?t" "?t \<le> 32768" using trunc_between [OF y] by simp_all
  have near: "\<bar>real_of_int ?t - ?y\<bar> < 1" by (rule trunc_near)
  have m: "- 32768 \<le> ?m" "?m \<le> 32767" by simp_all
  have close: "\<bar>real_of_int ?m - ?y\<bar> \<le> 1"
  proof (cases "?t = 32768")
    case True
    then have "?m = 32767" by simp
    moreover from True near y(2) have "32767 < ?y" by simp
    ultimately show ?thesis using y(2) by simp
  next
    case False
    with t have "?m = ?t" by simp
    with near show ?thesis by simp
  qed
  define q where "q = real_of_int ?m / 32768"
  have eq: "fromInt16 (toInt16 x) = q"
    by (simp only: fromInt16_def toInt16_def c sint_int16 [OF m] q_def)
  have mq: "real_of_int ?m = 32768 * q" by (simp add: q_def)
  from close have "\<bar>32768 * q - x * 32768\<bar> \<le> 1" by (simp only: mq)
  then have "\<bar>q - x\<bar> \<le> 1 / 32768" by linarith
  then show ?thesis by (simp only: eq)
qed

text \<open>
  Claim C9. For every sample buffer with values in \<open>[-1, 1]\<close>, decoding the transport
  frame that encoding produces succeeds and yields a buffer of the same length in which
  every sample differs from the original by at most one quantization step of the 16-bit
  encoding, \<open>1 / 2 ^ 15\<close>. (On the codec as the specification describes it.)
\<close>

theorem transport_round_trip:
  assumes "list_all (\<lambda>x. - 1 \<le> x \<and> x \<le> 1) xs"
  shows "decodeFromTransport (encodeForTransport xs) targetSampleRate channels =
           Inr (map (fromInt16 \<circ> toInt16) xs) \<and>
         list_all2 (\<lambda>y x. \<bar>y - x\<bar> \<le> 1 / 32768) (map (fromInt16 \<circ> toInt16) xs) xs"
proof -
  have bytes: "unle16 (concat (map (le16 \<circ> toInt16) xs)) = Some (map toInt16 xs)"
    using unle16_le16 [of "map toInt16 xs"] by (simp only: map_map)
  have dec: "decodeFromTransport (encodeForTransport xs) targetSampleRate channels =
               Inr (map (fromInt16 \<circ> toInt16) xs)"
    by (simp add: decodeFromTransport_def encodeForTransport_def unbase64_base64 bytes)
  have near: "list_all2 (\<lambda>y x. \<bar>y - x\<bar> \<le> 1 / 32768) (map (fromInt16 \<circ> toInt16) xs) xs"
    using assms
  proof (induction xs)
    case Nil
    then show ?case by simp
  next
    case (Cons x xs)
    then have "- 1 \<le> x" "x \<le> 1" by simp_all
    then have "\<bar>fromInt16 (toInt16 x) - x\<bar> \<le> 1 / 32768" by (rule sample_round_trip)
    with Cons show ?case by simp
  qed
  from dec near show ?thesis by (rule conjI)
qed

lemma toInt16_samples:
  "toInt16 0 = 0" "toInt16 (1 / 2) = 16384" "toInt16 (- 1) = - 32768" "toInt16 1 = 32767"
  by (simp_all add: toInt16_def clampSample_def trunc_def)

theorem transport_round_trip_witness:
  "payload (encodeForTransport [0, 1 / 2, - 1, 1]) = ''AAAAQACA/38='' \<and>
   decodeFromTransport (encodeForTransport [0, 1 / 2, - 1, 1]) 24000 1 =
     Inr [0, 1 / 2, - 1, 32767 / 32768]"
proof -
  have r: "list_all (\<lambda>x. - 1 \<le> x \<and> x \<le> 1) [0, 1 / 2, - 1, 1 :: real]"
    by simp
  have p: "payload (encodeForTransport [0, 1 / 2, - 1, 1]) = ''AAAAQACA/38=''"
    by (simp add: encodeForTransport_def toInt16_samples le16_def sextetChar_def alphabet_def)
  have d: "map (fromInt16 \<circ> toInt16) [0, 1 / 2, - 1, 1] = [0, 1 / 2, - 1, 32767 / 32768]"
    by (simp add: toInt16_samples fromInt16_def)
  show ?thesis
    using transport_round_trip [OF r, of 24000 1] p by (simp only: d simp_thms)
qed

end
